theory Spec2Isabelle
  imports Complex_Main
begin

section \<open>Data model\<close>

text \<open>
  The store holds two collections, \<open>users\<close> (\<open>UserSchema\<close>, src/models/User.js,
  lines 3 to 12) and \<open>posts\<close> (\<open>PostSchema\<close> and \<open>CommentSchema\<close>,
  src/unnamed/part_000). A collection is the list of its documents in insertion order.
  An ObjectId is a natural number; a \<open>Date\<close> is an integer number of milliseconds.
  Strings are ASCII character lists.

  The Mongoose schemas fix the fields: \<open>UserSchema\<close> and \<open>PostSchema\<close> carry
  \<open>timestamps: true\<close>, so both documents have \<open>createdAt\<close> and \<open>updatedAt\<close>;
  comments are sub-documents with an \<open>_id\<close> of their own, and so are replies.
  \<open>u_v\<close> is the version key \<open>__v\<close> of a user document. Posts have one too; every
  post handler holds a single copy of its document, so the key cannot differ
  from the stored one there and is left out.
  Fields that several schemas share (\<open>_id\<close>, \<open>author\<close>, \<open>text\<close>, \<open>createdAt\<close>)
  carry a prefix here, since record fields are global names.
\<close>

type_synonym oid = nat
type_synonym date = int

record reply =
  r_id :: oid
  r_author :: oid
  r_text :: string
  r_createdAt :: date

record comment =
  c_id :: oid
  c_author :: oid
  c_text :: string
  c_createdAt :: date
  replies :: "reply list"

record post =
  p_id :: oid
  author :: oid
  videoUrl :: string
  caption :: string
  hashtags :: "string list"
  durationSec :: real
  likes :: "oid list"
  comments :: "comment list"
  views :: nat
  isPromoted :: bool
  createdAt :: date
  updatedAt :: date

record user =
  u_id :: oid
  username :: string
  email :: string
  passwordHash :: string
  displayName :: "string option"
  bio :: "string option"
  avatarUrl :: "string option"
  followers :: "oid list"
  following :: "oid list"
  u_createdAt :: date
  u_updatedAt :: date
  u_v :: nat

record db =
  users :: "user list"
  posts :: "post list"

text \<open>
  A handler answers either with \<open>res.status(400).json({ errors: ... })\<close>, the list of
  the fields that failed the route's validators, or with
  \<open>res.status(s).json({ error: msg })\<close>, or with a success payload. Every handler
  returns the store after the request together with its answer.
\<close>

datatype failure =
  ValidationErrors "string list"
  | Failure nat string

section \<open>Collections\<close>

definition findUserById :: "user list \<Rightarrow> oid \<Rightarrow> user option" where
  "findUserById us i = find (\<lambda>u. u_id u = i) us"

definition findById :: "post list \<Rightarrow> oid \<Rightarrow> post option" where
  "findById ps i = find (\<lambda>p. p_id p = i) ps"

text \<open>
  \<open>doc.save()\<close> and \<open>findByIdAndUpdate\<close> write the paths the handler changed into
  the document with the given \<open>_id\<close>, and set \<open>updatedAt\<close>.
\<close>

definition update_post :: "oid \<Rightarrow> (post \<Rightarrow> post) \<Rightarrow> db \<Rightarrow> db" where
  "update_post i f d = d\<lparr>posts := map (\<lambda>p. if p_id p = i then f p else p) (posts d)\<rparr>"

definition update_user :: "oid \<Rightarrow> (user \<Rightarrow> user) \<Rightarrow> db \<Rightarrow> db" where
  "update_user i f d = d\<lparr>users := map (\<lambda>u. if u_id u = i then f u else u) (users d)\<rparr>"

section \<open>Single post, likes, comments and replies (src/models/User.js, lines 218 to 302)\<close>

text \<open>\<open>GET /:id\<close>: \<open>findByIdAndUpdate(id, { $inc: { views: 1 } }, { new: true })\<close>
  returns the document after the update. \<open>populate\<close> only adds the authors' display
  fields to the answer and is left out, here and in the feed.\<close>

definition getPost :: "date \<Rightarrow> db \<Rightarrow> oid \<Rightarrow> db \<times> (failure + post)" where
  "getPost now d i =
     (case findById (posts d) i of
        None \<Rightarrow> (d, Inl (Failure 404 ''Not found''))
      | Some p \<Rightarrow>
          (let p' = p\<lparr>views := views p + 1, updatedAt := now\<rparr>
           in (update_post i (\<lambda>q. q\<lparr>views := views q + 1, updatedAt := now\<rparr>) d, Inr p')))"

text \<open>\<open>POST /:id/like\<close>: the answer is \<open>{ likesCount, liked }\<close>.\<close>

definition toggleLike :: "date \<Rightarrow> db \<Rightarrow> oid \<Rightarrow> oid \<Rightarrow> db \<times> (failure + nat \<times> bool)" where
  "toggleLike now d i uid =
     (case findById (posts d) i of
        None \<Rightarrow> (d, Inl (Failure 404 ''Not found''))
      | Some p \<Rightarrow>
          (let liked = (uid \<in> set (likes p));
               ls = (if liked then filter (\<lambda>x. x \<noteq> uid) (likes p) else likes p @ [uid])
           in (update_post i (\<lambda>q. q\<lparr>likes := ls, updatedAt := now\<rparr>) d,
               Inr (length ls, \<not> liked))))"

text \<open>\<open>POST /:id/comment\<close>. The route validator is \<open>isLength({ min: 1, max: 500 })\<close>.
  Pushing onto \<open>post.comments\<close> makes a sub-document: Mongoose gives it a new
  ObjectId (the argument \<open>cid\<close>), \<open>createdAt = Date.now\<close> and no replies. The answer
  is the last comment of the array.\<close>

definition addComment ::
  "date \<Rightarrow> oid \<Rightarrow> db \<Rightarrow> oid \<Rightarrow> oid \<Rightarrow> string \<Rightarrow> db \<times> (failure + comment)" where
  "addComment now cid d i uid txt =
     (if \<not> (1 \<le> length txt \<and> length txt \<le> 500) then (d, Inl (ValidationErrors [''text'']))
      else case findById (posts d) i of
        None \<Rightarrow> (d, Inl (Failure 404 ''Not found''))
      | Some p \<Rightarrow>
          (let c = \<lparr>c_id = cid, c_author = uid, c_text = txt, c_createdAt = now, replies = []\<rparr>
           in (update_post i (\<lambda>q. q\<lparr>comments := comments p @ [c], updatedAt := now\<rparr>) d,
               Inr (last (comments p @ [c])))))"

text \<open>\<open>post.comments.id(commentId)\<close> is the first comment with that \<open>_id\<close>;
  \<open>comment.replies.push\<close> changes that comment inside the post.\<close>

fun push_reply :: "oid \<Rightarrow> reply \<Rightarrow> comment list \<Rightarrow> comment list" where
  "push_reply cid r [] = []"
| "push_reply cid r (c # cs) =
     (if c_id c = cid then c\<lparr>replies := replies c @ [r]\<rparr> # cs else c # push_reply cid r cs)"

text \<open>\<open>POST /:id/comment/:commentId/reply\<close>; \<open>rid\<close> is the reply's new ObjectId.\<close>

definition addReply ::
  "date \<Rightarrow> oid \<Rightarrow> db \<Rightarrow> oid \<Rightarrow> oid \<Rightarrow> oid \<Rightarrow> string \<Rightarrow> db \<times> (failure + reply)" where
  "addReply now rid d i cid uid txt =
     (if \<not> (1 \<le> length txt \<and> length txt \<le> 500) then (d, Inl (ValidationErrors [''text'']))
      else case findById (posts d) i of
        None \<Rightarrow> (d, Inl (Failure 404 ''Not found''))
      | Some p \<Rightarrow>
          (case find (\<lambda>c. c_id c = cid) (comments p) of
             None \<Rightarrow> (d, Inl (Failure 404 ''Comment not found''))
           | Some c \<Rightarrow>
               (let r = \<lparr>r_id = rid, r_author = uid, r_text = txt, r_createdAt = now\<rparr>
                in (update_post i
                      (\<lambda>q. q\<lparr>comments := push_reply cid r (comments p), updatedAt := now\<rparr>) d,
                    Inr (last (replies c @ [r]))))))"

section \<open>Follow and unfollow (src/models/User.js, lines 304 to 327)\<close>

text \<open>
  \<open>doc.save()\<close> after a whole array was assigned to a path of \<open>doc\<close>: Mongoose
  sends the update with the filter \<open>{ _id, __v }\<close> of the copy it holds and
  increments \<open>__v\<close>. When the stored document has another version by then,
  nothing matches and \<open>save\<close> throws a \<open>VersionError\<close> (\<open>None\<close>).
\<close>

definition save_versioned :: "user \<Rightarrow> (user \<Rightarrow> user) \<Rightarrow> db \<Rightarrow> db option" where
  "save_versioned doc f d =
     (case findUserById (users d) (u_id doc) of
        None \<Rightarrow> None
      | Some stored \<Rightarrow>
          (if u_v stored = u_v doc
           then Some (update_user (u_id doc) (\<lambda>u. (f u)\<lparr>u_v := u_v u + 1\<rparr>) d)
           else None))"

text \<open>
  \<open>POST /user/:userId/follow\<close>. \<open>toFollow\<close> and \<open>me\<close> are read one after the other,
  two copies of one document when \<open>selfId = targetId\<close>; when \<open>me\<close> is \<open>null\<close> the
  read of \<open>me.following\<close> throws and the \<open>catch\<close> answers 500.

  In the follow branch each \<open>push\<close> is saved as a \<open>$push\<close>, which increments
  \<open>__v\<close> and does not look at it. In the unfollow branch both arrays are assigned
  whole (\<open>filter\<close>), so each save is guarded by the version of its copy:
  \<open>me.save()\<close> writes \<open>following\<close>, then \<open>toFollow.save()\<close> writes \<open>followers\<close>, and
  a \<open>VersionError\<close> of the second leaves the first write in the store and is
  answered by the \<open>catch\<close> with 500. The answer of a success is
  \<open>{ followingCount, followersCount, following }\<close>.
\<close>

definition toggleFollow ::
  "date \<Rightarrow> db \<Rightarrow> oid \<Rightarrow> oid \<Rightarrow> db \<times> (failure + nat \<times> nat \<times> bool)" where
  "toggleFollow now d selfId targetId =
     (case findUserById (users d) targetId of
        None \<Rightarrow> (d, Inl (Failure 404 ''User not found''))
      | Some toFollow \<Rightarrow>
          (case findUserById (users d) selfId of
             None \<Rightarrow> (d, Inl (Failure 500 ''Failed to follow/unfollow''))
           | Some me \<Rightarrow>
               (let alreadyFollowing = (u_id toFollow \<in> set (following me));
                    fg = (if alreadyFollowing
                          then filter (\<lambda>x. x \<noteq> u_id toFollow) (following me)
                          else following me @ [u_id toFollow]);
                    fs = (if alreadyFollowing
                          then filter (\<lambda>x. x \<noteq> u_id me) (followers toFollow)
                          else followers toFollow @ [u_id me])
                in if alreadyFollowing
                   then
                     (case save_versioned me (\<lambda>u. u\<lparr>following := fg, u_updatedAt := now\<rparr>) d of
                        None \<Rightarrow> (d, Inl (Failure 500 ''Failed to follow/unfollow''))
                      | Some d1 \<Rightarrow>
                          (case save_versioned toFollow
                                  (\<lambda>u. u\<lparr>followers := fs, u_updatedAt := now\<rparr>) d1 of
                             None \<Rightarrow> (d1, Inl (Failure 500 ''Failed to follow/unfollow''))
                           | Some d2 \<Rightarrow> (d2, Inr (length fg, length fs, \<not> alreadyFollowing))))
                   else
                     (let d1 = update_user (u_id me)
                                 (\<lambda>u. u\<lparr>following := fg, u_updatedAt := now,
                                         u_v := u_v u + 1\<rparr>) d;
                          d2 = update_user (u_id toFollow)
                                 (\<lambda>u. u\<lparr>followers := fs, u_updatedAt := now,
                                         u_v := u_v u + 1\<rparr>) d1
                      in (d2, Inr (length fg, length fs, \<not> alreadyFollowing))))))"

text \<open>A run of follow requests, each \<open>(now, selfId, targetId)\<close>.\<close>

fun toggleFollow_seq :: "db \<Rightarrow> (date \<times> oid \<times> oid) list \<Rightarrow> db" where
  "toggleFollow_seq d [] = d"
| "toggleFollow_seq d ((now, selfId, targetId) # cs) =
     toggleFollow_seq (fst (toggleFollow now d selfId targetId)) cs"

section \<open>Strings\<close>

text \<open>
  \<open>String.prototype.toLowerCase\<close> and \<open>trim\<close> on ASCII strings: the letters
  \<open>A\<close> to \<open>Z\<close> have the codes 65 to 90 and their lower-case forms lie 32 above;
  \<open>trim\<close> strips space, tab, line feed, vertical tab, form feed and carriage return
  from both ends.
\<close>

definition is_upper :: "char \<Rightarrow> bool" where
  "is_upper c = (65 \<le> (of_char c :: nat) \<and> (of_char c :: nat) \<le> 90)"

definition to_lower :: "char \<Rightarrow> char" where
  "to_lower c = (if is_upper c then char_of ((of_char c :: nat) + 32) else c)"

definition toLowerCase :: "string \<Rightarrow> string" where
  "toLowerCase s = map to_lower s"

definition is_space :: "char \<Rightarrow> bool" where
  "is_space c = ((of_char c :: nat) = 32 \<or> (9 \<le> (of_char c :: nat) \<and> (of_char c :: nat) \<le> 13))"

definition trim :: "string \<Rightarrow> string" where
  "trim s = rev (dropWhile is_space (rev (dropWhile is_space s)))"

text \<open>The properties of a stored hashtag that the schema options are there for.\<close>

definition lowercase :: "string \<Rightarrow> bool" where
  "lowercase s = (\<forall>c \<in> set s. \<not> is_upper c)"

definition trimmed :: "string \<Rightarrow> bool" where
  "trimmed s = (s = [] \<or> (\<not> is_space (hd s) \<and> \<not> is_space (last s)))"

text \<open>
  A schema path declared \<open>{ type: String, lowercase: true, trim: true }\<close> passes every
  value written to it, and every value it is queried by, through its setters.
\<close>

definition string_setters :: "string \<Rightarrow> string" where
  "string_setters s = toLowerCase (trim s)"

text \<open>
  \<open>hashtags.split(/[, ]+/)\<close>: the pieces between maximal runs of commas and spaces,
  with an empty first or last piece when the string starts or ends with a separator.
  \<open>insep\<close> says that the previous character was a separator, \<open>cur\<close> is the piece
  read so far, reversed.
\<close>

definition is_sep :: "char \<Rightarrow> bool" where
  "is_sep c = (c = CHR '','' \<or> c = CHR '' '')"

fun split_aux :: "bool \<Rightarrow> string \<Rightarrow> string \<Rightarrow> string list" where
  "split_aux insep cur [] = [rev cur]"
| "split_aux insep cur (c # cs) =
     (if is_sep c then (if insep then split_aux True cur cs else rev cur # split_aux True [] cs)
      else split_aux False (c # cur) cs)"

definition split_tags :: "string \<Rightarrow> string list" where
  "split_tags s = split_aux False [] s"

section \<open>Accounts (src/models/User.js, lines 56 to 116)\<close>

text \<open>
  The collaborators the handlers call but the repository does not define:
  \<open>isEmail\<close> of express-validator, \<open>bcrypt.hash\<close> (password, then salt) and
  \<open>bcrypt.compare\<close> (password, then hash), \<open>jwt.sign\<close> on the payload \<open>{ id }\<close>,
  and the prefix \<open>protocol://host/UPLOAD_DIR/\<close> of an uploaded file's address.
\<close>

record env =
  isEmail :: "string \<Rightarrow> bool"
  bcrypt_hash :: "string \<Rightarrow> string \<Rightarrow> string"
  bcrypt_compare :: "string \<Rightarrow> string \<Rightarrow> bool"
  jwt_sign :: "oid \<Rightarrow> string"
  upload_base :: string

text \<open>The success payload of register and login: \<open>{ token, user: { id, username, email, displayName } }\<close>.\<close>

record identity =
  token :: string
  i_id :: oid
  i_username :: string
  i_email :: string
  i_displayName :: "string option"


definition identity_of :: "env \<Rightarrow> user \<Rightarrow> identity" where
  "identity_of e u = \<lparr>token = jwt_sign e (u_id u), i_id = u_id u, i_username = username u,
     i_email = email u, i_displayName = displayName u\<rparr>"




text \<open>
  \<open>POST /login\<close>. The body is JSON, so the password is any JSON value or absent:
  \<open>body('password').exists()\<close> fails only when the field is absent.
  \<open>bcrypt.compare\<close> throws on a password that is not a string; the handler calls
  it only after the user was found, and the \<open>catch\<close> answers 500.
\<close>

datatype json_value = JString string | JNumber int | JBool bool | JNull

definition login_errors :: "env \<Rightarrow> string \<Rightarrow> json_value option \<Rightarrow> string list" where
  "login_errors e em pw =
     (if isEmail e em then [] else [''email'']) @
     (if pw = None then [''password''] else [])"

definition login ::
  "env \<Rightarrow> db \<Rightarrow> string \<Rightarrow> json_value option \<Rightarrow> db \<times> (failure + identity)" where
  "login e d em pw =
     (if login_errors e em pw \<noteq> [] then (d, Inl (ValidationErrors (login_errors e em pw)))
      else case pw of
        None \<Rightarrow> (d, Inl (ValidationErrors [''password'']))
      | Some password \<Rightarrow>
          (case find (\<lambda>u. email u = string_setters em) (users d) of
             None \<Rightarrow> (d, Inl (Failure 400 ''Invalid credentials''))
           | Some u \<Rightarrow>
               (case password of
                  JString s \<Rightarrow>
                    (if \<not> bcrypt_compare e s (passwordHash u)
                     then (d, Inl (Failure 400 ''Invalid credentials''))
                     else (d, Inr (identity_of e u)))
                | _ \<Rightarrow> (d, Inl (Failure 500 ''Server error'')))))"

section \<open>Creating posts and the feed (src/models/User.js, lines 147 to 216)\<close>

text \<open>
  A field of the multipart body is a string, or an array of strings when the form
  repeats the field's name, or absent.
\<close>

datatype form_field = Absent | Text string | Items "string list"

text \<open>
  \<open>hashtags = ''\<close> is the default of an absent field; a string is split, trimmed
  and stripped of its empty pieces; an array is taken as it is.
\<close>

definition parse_tags :: "form_field \<Rightarrow> string list" where
  "parse_tags h =
     (case h of
        Absent \<Rightarrow> filter (\<lambda>s. s \<noteq> []) (map trim (split_tags []))
      | Text s \<Rightarrow> filter (\<lambda>s. s \<noteq> []) (map trim (split_tags s))
      | Items xs \<Rightarrow> xs)"

text \<open>
  \<open>body('durationSec').isFloat({ gt: 0, lt: 300 })\<close>. The field is given by the
  number it denotes, \<open>None\<close> when it is absent or not a decimal numeral.
\<close>

definition duration_ok :: "real option \<Rightarrow> bool" where
  "duration_ok dur = (case dur of None \<Rightarrow> False | Some r \<Rightarrow> 0 < r \<and> r < 300)"

text \<open>
  \<open>POST /\<close>. \<open>uid\<close> is \<open>req.user._id\<close>, \<open>file\<close> the name multer gave the uploaded
  video (\<open>None\<close> without \<open>req.file\<close>), \<open>pid\<close> the new ObjectId. \<open>Post.create\<close> passes
  every hashtag through the setters of the schema, validates
  \<open>caption: { maxlength: 280 }\<close> and needs an unused \<open>_id\<close>; a failure there is
  thrown into the \<open>catch\<close>, which answers 500.
\<close>

definition createPost ::
  "env \<Rightarrow> date \<Rightarrow> oid \<Rightarrow> db \<Rightarrow> oid \<Rightarrow> string option \<Rightarrow> string \<Rightarrow> form_field \<Rightarrow> real option
     \<Rightarrow> db \<times> (failure + post)" where
  "createPost e now pid d uid file cap tags_field dur =
     (if \<not> duration_ok dur then (d, Inl (ValidationErrors [''durationSec'']))
      else case file of
        None \<Rightarrow> (d, Inl (Failure 400 ''Video file required''))
      | Some filename \<Rightarrow>
          (case dur of
             None \<Rightarrow> (d, Inl (ValidationErrors [''durationSec'']))
           | Some duration \<Rightarrow>
               (if 280 < length cap \<or> pid \<in> set (map p_id (posts d))
                then (d, Inl (Failure 500 ''Failed to create post''))
                else
                  (let p = \<lparr>p_id = pid, author = uid, videoUrl = upload_base e @ filename,
                             caption = cap, hashtags = map string_setters (parse_tags tags_field),
                             durationSec = duration, likes = [], comments = [], views = 0,
                             isPromoted = False, createdAt = now, updatedAt = now\<rparr>
                   in (d\<lparr>posts := posts d @ [p]\<rparr>, Inr p)))))"

text \<open>
  \<open>GET /\<close>. A query parameter is given by the integer it denotes, \<open>None\<close> when it
  is absent or empty (then \<open>||\<close> takes the default; the string \<open>"0"\<close> is truthy and
  denotes 0).

  The cursor follows MongoDB: \<open>sort({ createdAt: -1 })\<close> orders by descending
  creation time (here stably); a negative \<open>skip\<close> is refused by the server, which
  the \<open>catch\<close> answers with 500; \<open>limit(0)\<close> sets no limit, and a negative limit
  stands for its absolute value. The answer is \<open>{ posts, page, limit }\<close>.
\<close>

definition feed_page :: "int option \<Rightarrow> int" where
  "feed_page q = max 0 (case q of None \<Rightarrow> 0 | Some n \<Rightarrow> n)"

definition feed_limit :: "int option \<Rightarrow> int" where
  "feed_limit q = min 50 (case q of None \<Rightarrow> 12 | Some n \<Rightarrow> n)"

definition feed_filter :: "string option \<Rightarrow> post \<Rightarrow> bool" where
  "feed_filter h p =
     (case h of
        None \<Rightarrow> True
      | Some t \<Rightarrow> (if t = [] then True else string_setters (toLowerCase t) \<in> set (hashtags p)))"

definition newest_first :: "post list \<Rightarrow> post list" where
  "newest_first ps = sort_key (\<lambda>p. - createdAt p) ps"

definition cursor_limit :: "int \<Rightarrow> post list \<Rightarrow> post list" where
  "cursor_limit n ps = (if n = 0 then ps else take (nat \<bar>n\<bar>) ps)"

definition listFeed ::
  "db \<Rightarrow> int option \<Rightarrow> int option \<Rightarrow> string option \<Rightarrow> db \<times> (failure + post list \<times> int \<times> int)" where
  "listFeed d page_q limit_q hashtag =
     (let page = feed_page page_q;
          limit = feed_limit limit_q;
          sorted = newest_first (filter (feed_filter hashtag) (posts d))
      in if page * limit < 0 then (d, Inl (Failure 500 ''Failed to fetch feed''))
         else (d, Inr (cursor_limit limit (drop (nat (page * limit)) sorted), page, limit)))"

section \<open>Properties of the follow relation\<close>

text \<open>No user is in their own \<open>followers\<close> or \<open>following\<close> array.\<close>

definition no_self_follow :: "db \<Rightarrow> bool" where
  "no_self_follow d =
     (\<forall>u \<in> set (users d). u_id u \<notin> set (followers u) \<and> u_id u \<notin> set (following u))"





text \<open>
  No request of the run asks a user to unfollow themselves: a request with
  \<open>selfId = targetId\<close> finds the caller outside their own \<open>following\<close> array.
\<close>

definition follows_self :: "db \<Rightarrow> oid \<Rightarrow> bool" where
  "follows_self d i =
     (case findUserById (users d) i of None \<Rightarrow> False | Some me \<Rightarrow> i \<in> set (following me))"

fun no_self_unfollow :: "db \<Rightarrow> (date \<times> oid \<times> oid) list \<Rightarrow> bool" where
  "no_self_unfollow d [] = True"
| "no_self_unfollow d ((now, selfId, targetId) # cs) =
     ((selfId = targetId \<longrightarrow> \<not> follows_self d selfId) \<and>
      no_self_unfollow (fst (toggleFollow now d selfId targetId)) cs)"

text \<open>Every request of the run has a caller other than its target.\<close>

definition never_self :: "(date \<times> oid \<times> oid) list \<Rightarrow> bool" where
  "never_self cs = (\<forall>c \<in> set cs. fst (snd c) \<noteq> snd (snd c))"

text \<open>No like array of the store holds a user twice.\<close>

definition likes_distinct :: "db \<Rightarrow> bool" where
  "likes_distinct d = (\<forall>p \<in> set (posts d). distinct (likes p))"

section \<open>A small store for concrete checks\<close>

definition alice :: user where
  "alice = \<lparr>u_id = 1, username = ''alice'', email = ''alice@x.com'', passwordHash = ''h1'',
     displayName = None, bio = None, avatarUrl = None, followers = [], following = [],
     u_createdAt = 0, u_updatedAt = 0, u_v = 0\<rparr>"

definition bob :: user where
  "bob = \<lparr>u_id = 2, username = ''bob'', email = ''bob@x.com'', passwordHash = ''h2'',
     displayName = Some ''Bob'', bio = None, avatarUrl = None, followers = [], following = [],
     u_createdAt = 5, u_updatedAt = 5, u_v = 0\<rparr>"

definition clip :: post where
  "clip = \<lparr>p_id = 10, author = 1, videoUrl = ''http://h/uploads/a.mp4'', caption = ''first'',
     hashtags = [''fun''], durationSec = 45, likes = [2], comments = [], views = 0,
     isPromoted = False, createdAt = 100, updatedAt = 100\<rparr>"

definition reel :: post where
  "reel = \<lparr>p_id = 11, author = 2, videoUrl = ''http://h/uploads/b.mp4'', caption = ''second'',
     hashtags = [], durationSec = 30, likes = [], comments = [], views = 3,
     isPromoted = False, createdAt = 200, updatedAt = 200\<rparr>"

definition demo_db :: db where
  "demo_db = \<lparr>users = [alice, bob], posts = [clip, reel]\<rparr>"





text \<open>Stand-ins for the collaborators, for concrete checks only.\<close>

definition demo_env :: env where
  "demo_env = \<lparr>isEmail = (\<lambda>s. CHR ''@'' \<in> set s),
     bcrypt_hash = (\<lambda>pw salt. salt @ pw),
     bcrypt_compare = (\<lambda>pw h. drop 2 h = pw),
     jwt_sign = (\<lambda>i. replicate i CHR ''t''),
     upload_base = ''http://h/uploads/''\<rparr>"

section \<open>Reading and writing one post\<close>

lemma findById_update_same:
  assumes "\<And>q. p_id (f q) = p_id q"
  shows "findById (posts (update_post i f d)) i = map_option f (findById (posts d) i)"
proof -
  have "find (\<lambda>p. p_id p = i) (map (\<lambda>p. if p_id p = i then f p else p) ps)
        = map_option f (find (\<lambda>p. p_id p = i) ps)" for ps
    using assms by (induction ps) auto
  then show ?thesis by (simp add: findById_def update_post_def)
qed

lemma findById_SomeD: "findById ps i = Some p \<Longrightarrow> p \<in> set ps \<and> p_id p = i"
  unfolding findById_def by (induction ps) (auto split: if_splits)

lemma update_post_nth:
  "k < length (posts d) \<Longrightarrow> p_id (posts d ! k) \<noteq> i \<Longrightarrow>
   posts (update_post i f d) ! k = posts d ! k"
  by (simp add: update_post_def)

lemma update_post_frame:
  "length (posts (update_post i f d)) = length (posts d)"
  "users (update_post i f d) = users d"
  by (simp_all add: update_post_def)

lemma demo_findById:
  "findById (posts demo_db) 10 = Some clip"
  "findById (posts demo_db) 11 = Some reel"
  "findById (posts demo_db) 99 = None"
  by (simp_all add: demo_db_def clip_def reel_def findById_def)

section \<open>Likes\<close>

lemma length_filter_neq_distinct:
  "distinct xs \<Longrightarrow> x \<in> set xs \<Longrightarrow> Suc (length (filter (\<lambda>y. y \<noteq> x) xs)) = length xs"
proof (induction xs)
  case Nil
  then show ?case by simp
next
  case (Cons a xs)
  show ?case
  proof (cases "a = x")
    case True
    with Cons.prems have "x \<notin> set xs" by simp
    then have "filter (\<lambda>y. y \<noteq> x) xs = xs" by (auto simp: filter_id_conv)
    with True show ?thesis by simp
  next
    case False
    with Cons show ?thesis by simp
  qed
qed

lemma toggleLike_found:
  assumes "findById (posts d) i = Some p"
  shows "toggleLike now d i uid =
     (update_post i
        (\<lambda>q. q\<lparr>likes := (if uid \<in> set (likes p) then filter (\<lambda>x. x \<noteq> uid) (likes p)
                           else likes p @ [uid]),
               updatedAt := now\<rparr>) d,
      Inr (length (if uid \<in> set (likes p) then filter (\<lambda>x. x \<noteq> uid) (likes p)
                   else likes p @ [uid]),
           uid \<notin> set (likes p)))"
  using assms by (simp add: toggleLike_def Let_def)

text \<open>
  The like array of a new post is empty, a toggle keeps the array free of
  duplicates and no other handler writes it: the stores the handlers build have
  duplicate-free like arrays.
\<close>

lemma update_post_likes_distinct:
  assumes "likes_distinct d" and "\<And>q. q \<in> set (posts d) \<Longrightarrow> distinct (likes (f q))"
  shows "likes_distinct (update_post i f d)"
  using assms by (auto simp: likes_distinct_def update_post_def)

lemma likes_distinct_kept:
  assumes "likes_distinct d"
  shows "likes_distinct (fst (toggleLike now d i uid))"
    and "likes_distinct (fst (getPost now d i))"
    and "likes_distinct (fst (addComment now cid d i uid txt))"
    and "likes_distinct (fst (addReply now rid d i cid uid txt))"
    and "likes_distinct (fst (createPost e now i d uid file cap tags dur))"
proof -
  have lk: "distinct (likes q)" if "q \<in> set (posts d)" for q
    using assms that by (simp add: likes_distinct_def)
  show "likes_distinct (fst (toggleLike now d i uid))"
  proof (cases "findById (posts d) i")
    case None
    then show ?thesis using assms by (simp add: toggleLike_def)
  next
    case (Some p)
    then have "distinct (likes p)" using findById_SomeD lk by blast
    then show ?thesis
      using Some assms by (auto simp: toggleLike_found intro!: update_post_likes_distinct)
  qed
  show "likes_distinct (fst (getPost now d i))"
    using assms lk
    by (auto simp: getPost_def Let_def split: option.splits intro!: update_post_likes_distinct)
  show "likes_distinct (fst (addComment now cid d i uid txt))"
    using assms lk
    by (auto simp: addComment_def Let_def split: option.splits intro!: update_post_likes_distinct)
  show "likes_distinct (fst (addReply now rid d i cid uid txt))"
    using assms lk
    by (auto simp: addReply_def Let_def split: option.splits intro!: update_post_likes_distinct)
  show "likes_distinct (fst (createPost e now i d uid file cap tags dur))"
    using assms
    by (auto simp: createPost_def Let_def likes_distinct_def split: option.splits)
qed

text \<open>
  Claim C1. When the post exists, two calls of \<open>toggleLike\<close> in a row for the same
  post and user bring the post's like set back to what it was before the first
  call, and with it the like count and whether the user is a member; the second
  call answers with that count and that state. (The order of the stored array may
  differ: an unlike followed by a like moves the user to the end.)
\<close>

theorem toggleLike_twice:
  assumes "findById (posts d) i = Some p" and "distinct (likes p)"
  shows "\<exists>d1 r1 d2 p2.
           toggleLike t1 d i uid = (d1, r1) \<and>
           toggleLike t2 d1 i uid = (d2, Inr (length (likes p), uid \<in> set (likes p))) \<and>
           findById (posts d2) i = Some p2 \<and>
           set (likes p2) = set (likes p) \<and>
           length (likes p2) = length (likes p) \<and>
           (uid \<in> set (likes p2)) = (uid \<in> set (likes p))"
proof -
  define ls1 where
    "ls1 = (if uid \<in> set (likes p) then filter (\<lambda>x. x \<noteq> uid) (likes p) else likes p @ [uid])"
  define d1 where "d1 = update_post i (\<lambda>q. q\<lparr>likes := ls1, updatedAt := t1\<rparr>) d"
  define p1 where "p1 = p\<lparr>likes := ls1, updatedAt := t1\<rparr>"
  define ls2 where
    "ls2 = (if uid \<in> set ls1 then filter (\<lambda>x. x \<noteq> uid) ls1 else ls1 @ [uid])"
  define d2 where "d2 = update_post i (\<lambda>q. q\<lparr>likes := ls2, updatedAt := t2\<rparr>) d1"
  have s1: "toggleLike t1 d i uid = (d1, Inr (length ls1, uid \<notin> set (likes p)))"
    using toggleLike_found[OF assms(1)] by (simp add: ls1_def d1_def)
  have f1: "findById (posts d1) i = Some p1"
    by (simp add: d1_def p1_def findById_update_same assms(1))
  have l1: "likes p1 = ls1" by (simp add: p1_def)
  have s2: "toggleLike t2 d1 i uid = (d2, Inr (length ls2, uid \<notin> set ls1))"
    using toggleLike_found[OF f1] by (simp add: ls2_def d2_def l1)
  have f2: "findById (posts d2) i = Some (p1\<lparr>likes := ls2, updatedAt := t2\<rparr>)"
    by (simp add: d2_def findById_update_same f1)
  have mem: "(uid \<notin> set ls1) = (uid \<in> set (likes p))" by (simp add: ls1_def)
  have st: "set ls2 = set (likes p)" by (auto simp: ls2_def ls1_def)
  have len: "length ls2 = length (likes p)"
  proof (cases "uid \<in> set (likes p)")
    case True
    then show ?thesis
      using length_filter_neq_distinct[OF assms(2) True] by (simp add: ls2_def ls1_def)
  next
    case False
    then have "filter (\<lambda>x. x \<noteq> uid) (likes p) = likes p" by (auto simp: filter_id_conv)
    with False show ?thesis by (simp add: ls2_def ls1_def)
  qed
  show ?thesis using s1 s2 f2 mem st len by simp
qed

theorem toggleLike_twice_witness:
  "findById (posts demo_db) 10 = Some clip \<and> distinct (likes clip) \<and>
   snd (toggleLike 310 (fst (toggleLike 300 demo_db 10 2)) 10 2) = Inr (1, True)"
proof -
  have b: "distinct (likes clip)" "likes clip = [2]" by (simp_all add: clip_def)
  from toggleLike_twice[OF demo_findById(1) b(1), of 300 2 310] show ?thesis
    using demo_findById(1) b by auto
qed

section \<open>Views\<close>

text \<open>
  Claim C4. \<open>getPost\<close> answers 404 \<open>Not found\<close> and leaves the store as it was when
  no post has the id. When the post exists, the post it stores and returns has one
  view more, and the same author, caption, hashtags, likes, comments, duration and
  promotion flag (and id, video address and creation time); the users and every
  post with another id are unchanged.
\<close>

theorem getPost_effect:
  "(findById (posts d) i = None \<longrightarrow> getPost now d i = (d, Inl (Failure 404 ''Not found''))) \<and>
   (\<forall>p. findById (posts d) i = Some p \<longrightarrow>
      (\<exists>d' p'. getPost now d i = (d', Inr p') \<and> findById (posts d') i = Some p' \<and>
         views p' = views p + 1 \<and>
         p_id p' = p_id p \<and> author p' = author p \<and> videoUrl p' = videoUrl p \<and>
         caption p' = caption p \<and> hashtags p' = hashtags p \<and> likes p' = likes p \<and>
         comments p' = comments p \<and> durationSec p' = durationSec p \<and>
         isPromoted p' = isPromoted p \<and> createdAt p' = createdAt p \<and>
         users d' = users d \<and> length (posts d') = length (posts d) \<and>
         (\<forall>k < length (posts d). p_id (posts d ! k) \<noteq> i \<longrightarrow> posts d' ! k = posts d ! k)))"
proof (intro conjI allI impI)
  assume "findById (posts d) i = None"
  then show "getPost now d i = (d, Inl (Failure 404 ''Not found''))"
    by (simp add: getPost_def)
next
  fix p assume f: "findById (posts d) i = Some p"
  let ?f = "\<lambda>q. q\<lparr>views := views q + 1, updatedAt := now\<rparr>"
  have g: "getPost now d i = (update_post i ?f d, Inr (?f p))"
    using f by (simp add: getPost_def)
  have f': "findById (posts (update_post i ?f d)) i = Some (?f p)"
    by (simp add: findById_update_same f)
  show "\<exists>d' p'. getPost now d i = (d', Inr p') \<and> findById (posts d') i = Some p' \<and>
         views p' = views p + 1 \<and>
         p_id p' = p_id p \<and> author p' = author p \<and> videoUrl p' = videoUrl p \<and>
         caption p' = caption p \<and> hashtags p' = hashtags p \<and> likes p' = likes p \<and>
         comments p' = comments p \<and> durationSec p' = durationSec p \<and>
         isPromoted p' = isPromoted p \<and> createdAt p' = createdAt p \<and>
         users d' = users d \<and> length (posts d') = length (posts d) \<and>
         (\<forall>k < length (posts d). p_id (posts d ! k) \<noteq> i \<longrightarrow> posts d' ! k = posts d ! k)"
    using g f' by (simp add: update_post_frame update_post_nth)
qed

theorem getPost_effect_witness:
  "findById (posts demo_db) 99 = None \<and>
   getPost 300 demo_db 99 = (demo_db, Inl (Failure 404 ''Not found'')) \<and>
   findById (posts demo_db) 11 = Some reel \<and>
   map_option views (findById (posts (fst (getPost 300 demo_db 11))) 11) = Some 4 \<and>
   posts (fst (getPost 300 demo_db 11)) ! 0 = clip"
proof -
  have c: "p_id (posts demo_db ! 0) \<noteq> 11" "0 < length (posts demo_db)" "views reel = 3"
    "posts demo_db ! 0 = clip"
    by (simp_all add: demo_db_def clip_def reel_def)
  from getPost_effect[of demo_db 99 300] demo_findById(3)
  have 1: "getPost 300 demo_db 99 = (demo_db, Inl (Failure 404 ''Not found''))" by blast
  from getPost_effect[of demo_db 11 300] demo_findById(2) c show ?thesis
    using demo_findById(3) 1 by fastforce
qed

section \<open>Comments and replies\<close>

lemma push_reply_fresh_last:
  "cid \<notin> c_id ` set cs \<Longrightarrow> c_id c = cid \<Longrightarrow>
   push_reply cid r (cs @ [c]) = cs @ [c\<lparr>replies := replies c @ [r]\<rparr>]"
  by (induction cs) auto

lemma find_fresh_last:
  "cid \<notin> c_id ` set cs \<Longrightarrow> c_id c = cid \<Longrightarrow> find (\<lambda>x. c_id x = cid) (cs @ [c]) = Some c"
  by (induction cs) auto

text \<open>
  Claim C9. On an existing post, with comment and reply texts of 1 to 500
  characters, \<open>addComment\<close> followed by \<open>addReply\<close> on the id of the returned
  comment leaves the comment sequence as long as it was after \<open>addComment\<close>, makes
  the reply sequence of the target comment longer by exactly one, and changes no
  other comment: the comments are the earlier ones followed by the new comment,
  which now carries the reply. The new comment's ObjectId \<open>cid\<close> is one no comment
  of the post has yet.
\<close>

theorem addComment_then_addReply:
  assumes f: "findById (posts d) i = Some p"
    and t1: "1 \<le> length txt1" "length txt1 \<le> 500"
    and t2: "1 \<le> length txt2" "length txt2 \<le> 500"
    and fresh: "cid \<notin> c_id ` set (comments p)"
  shows "\<exists>d1 c d2 r p1 p2.
           addComment now1 cid d i u1 txt1 = (d1, Inr c) \<and>
           addReply now2 rid d1 i (c_id c) u2 txt2 = (d2, Inr r) \<and>
           findById (posts d1) i = Some p1 \<and> findById (posts d2) i = Some p2 \<and>
           comments p1 = comments p @ [c] \<and>
           comments p2 = comments p @ [c\<lparr>replies := replies c @ [r]\<rparr>] \<and>
           length (comments p2) = length (comments p1) \<and>
           length (replies (last (comments p2))) = length (replies (last (comments p1))) + 1 \<and>
           c_id c = cid \<and> replies c = [] \<and> r_author r = u2 \<and> r_text r = txt2"
proof -
  define c where "c = \<lparr>c_id = cid, c_author = u1, c_text = txt1, c_createdAt = now1, replies = []\<rparr>"
  define g1 :: "post \<Rightarrow> post" where "g1 = (\<lambda>q. q\<lparr>comments := comments p @ [c], updatedAt := now1\<rparr>)"
  define d1 where "d1 = update_post i g1 d"
  define r where "r = \<lparr>r_id = rid, r_author = u2, r_text = txt2, r_createdAt = now2\<rparr>"
  define g2 :: "post \<Rightarrow> post" where "g2 = (\<lambda>q. q\<lparr>comments := push_reply cid r (comments (g1 p)), updatedAt := now2\<rparr>)"
  define d2 where "d2 = update_post i g2 d1"
  have a1: "addComment now1 cid d i u1 txt1 = (d1, Inr c)"
    using f t1 by (simp add: addComment_def d1_def g1_def c_def Let_def)
  have f1: "findById (posts d1) i = Some (g1 p)"
    by (simp add: d1_def g1_def findById_update_same f)
  have c1: "comments (g1 p) = comments p @ [c]" by (simp add: g1_def)
  have cc: "c_id c = cid" by (simp add: c_def)
  have fc: "find (\<lambda>x. c_id x = cid) (comments (g1 p)) = Some c"
    unfolding c1 by (rule find_fresh_last[OF fresh cc])
  have a2: "addReply now2 rid d1 i cid u2 txt2 = (d2, Inr r)"
    using f1 fc t2 by (simp add: addReply_def d2_def g2_def r_def Let_def c1)
  have f2: "findById (posts d2) i = Some (g2 (g1 p))"
    by (simp add: d2_def g2_def findById_update_same f1)
  have c2: "comments (g2 (g1 p)) = comments p @ [c\<lparr>replies := replies c @ [r]\<rparr>]"
    by (simp add: g2_def c1 push_reply_fresh_last[OF fresh cc])
  have "r_author r = u2" "r_text r = txt2" "replies c = []" by (simp_all add: r_def c_def)
  then show ?thesis using a1 a2 f1 f2 c1 c2 cc by simp
qed

theorem addComment_then_addReply_witness:
  "findById (posts demo_db) 10 = Some clip \<and> 20 \<notin> c_id ` set (comments clip) \<and>
   (\<exists>d1 c d2 r p2.
      addComment 310 20 demo_db 10 2 ''nice'' = (d1, Inr c) \<and>
      addReply 320 21 d1 10 (c_id c) 1 ''thanks'' = (d2, Inr r) \<and>
      findById (posts d2) 10 = Some p2 \<and> length (comments p2) = 1 \<and>
      length (replies (last (comments p2))) = 1 \<and> r_text r = ''thanks'')"
proof -
  have a: "1 \<le> length ''nice''" "length ''nice'' \<le> 500" "1 \<le> length ''thanks''"
    "length ''thanks'' \<le> 500" by simp_all
  have b: "20 \<notin> c_id ` set (comments clip)" "comments clip = []" by (simp_all add: clip_def)
  from addComment_then_addReply[OF demo_findById(1) a b(1), of 310 2 320 21 1]
  show ?thesis using demo_findById(1) b by fastforce
qed

section \<open>Login\<close>

text \<open>
  With a string for the password, the two failures of a valid request get the
  same answer: no user has the email, or the password does not match the hash.
\<close>

lemma login_string_failures:
  assumes "isEmail e em1" and "isEmail e em2"
    and "find (\<lambda>u. email u = string_setters em1) (users d1) = None"
    and "find (\<lambda>u. email u = string_setters em2) (users d2) = Some u"
    and "\<not> bcrypt_compare e pw2 (passwordHash u)"
  shows "login e d1 em1 (Some (JString pw1)) = (d1, Inl (Failure 400 ''Invalid credentials'')) \<and>
         login e d2 em2 (Some (JString pw2)) = (d2, Inl (Failure 400 ''Invalid credentials''))"
  using assms by (simp add: login_def login_errors_def)

text \<open>
  With a password that is not a string, the answer depends on the account alone:
  500 when a user has the email, 400 when none has.
\<close>

lemma login_not_a_string:
  assumes "isEmail e em" and "\<And>s. pw \<noteq> JString s"
  shows "login e d em (Some pw) =
     (d, Inl (if find (\<lambda>u. email u = string_setters em) (users d) = None
              then Failure 400 ''Invalid credentials'' else Failure 500 ''Server error''))"
  using assms by (cases pw) (auto simp: login_def login_errors_def split: option.splits)

lemma demo_emails:
  "string_setters ''carol@x.com'' = ''carol@x.com''"
  "string_setters ''alice@x.com'' = ''alice@x.com''"
  "string_setters ''dan@x.com'' = ''dan@x.com''"
  by code_simp+

text \<open>
  Claim C10 says that a failing login gets the same \<open>Invalid credentials\<close> answer
  whether no account has the email or the account exists and the password does
  not match, so that the answer tells nothing about the account. The code at the
  JSON password \<open>123\<close>, which passes \<open>exists()\<close>: for the registered
  \<open>alice@x.com\<close> the answer is 500 \<open>Server error\<close>, for the unregistered
  \<open>carol@x.com\<close> it is 400 \<open>Invalid credentials\<close>.
\<close>

theorem login_reveals_account:
  "login demo_env demo_db ''alice@x.com'' (Some (JNumber 123)) =
     (demo_db, Inl (Failure 500 ''Server error'')) \<and>
   login demo_env demo_db ''carol@x.com'' (Some (JNumber 123)) =
     (demo_db, Inl (Failure 400 ''Invalid credentials''))"
  by (simp add: login_def login_errors_def demo_emails demo_env_def demo_db_def alice_def bob_def)

section \<open>Lower case and trimming\<close>

lemma of_char_to_lower:
  "is_upper c \<Longrightarrow> (of_char (to_lower c) :: nat) = of_char c + 32"
  by (simp add: to_lower_def is_upper_def)

lemma not_upper_to_lower: "\<not> is_upper (to_lower c)"
proof (cases "is_upper c")
  case True
  then show ?thesis using of_char_to_lower[OF True] by (simp add: is_upper_def)
next
  case False
  then show ?thesis by (simp add: to_lower_def)
qed

lemma is_space_to_lower: "is_space (to_lower c) = is_space c"
proof (cases "is_upper c")
  case True
  then show ?thesis using of_char_to_lower[OF True] by (auto simp: is_space_def is_upper_def)
next
  case False
  then show ?thesis by (simp add: to_lower_def)
qed

lemma lowercase_toLowerCase: "lowercase (toLowerCase s)"
  by (simp add: lowercase_def toLowerCase_def not_upper_to_lower)


lemma trimmed_toLowerCase: "trimmed s \<Longrightarrow> trimmed (toLowerCase s)"
  by (auto simp: trimmed_def toLowerCase_def hd_map last_map is_space_to_lower)

lemma trim_prefix: "\<exists>ys. dropWhile is_space s = trim s @ ys"
proof -
  have "rev (dropWhile is_space s) =
        takeWhile is_space (rev (dropWhile is_space s)) @ dropWhile is_space (rev (dropWhile is_space s))"
    by simp
  then have "dropWhile is_space s = trim s @ rev (takeWhile is_space (rev (dropWhile is_space s)))"
    unfolding trim_def by (metis rev_append rev_rev_ident)
  then show ?thesis by blast
qed

lemma trimmed_trim: "trimmed (trim s)"
proof (cases "trim s = []")
  case True
  then show ?thesis by (simp add: trimmed_def)
next
  case False
  obtain ys where ys: "dropWhile is_space s = trim s @ ys" using trim_prefix by blast
  with False have ne: "dropWhile is_space s \<noteq> []" by auto
  have "hd (trim s) = hd (dropWhile is_space s)" using ys False by (metis hd_append2)
  then have h: "\<not> is_space (hd (trim s))" using hd_dropWhile[OF ne] by simp
  have ne2: "dropWhile is_space (rev (dropWhile is_space s)) \<noteq> []"
    using False by (simp add: trim_def)
  have "last (trim s) = hd (dropWhile is_space (rev (dropWhile is_space s)))"
    using ne2 by (simp add: trim_def last_rev)
  then have l: "\<not> is_space (last (trim s))" using hd_dropWhile[OF ne2] by simp
  show ?thesis using h l by (simp add: trimmed_def)
qed

lemma trim_trimmed: "trimmed s \<Longrightarrow> trim s = s"
proof (cases "s = []")
  case True
  then show ?thesis by (simp add: trim_def)
next
  case False
  assume "trimmed s"
  with False have h: "\<not> is_space (hd s)" and l: "\<not> is_space (last s)"
    by (simp_all add: trimmed_def)
  have 1: "dropWhile is_space s = s" using False h by (cases s) auto
  have "hd (rev s) = last s" by (simp add: hd_rev)
  moreover have "rev s \<noteq> []" using False by simp
  ultimately have 2: "dropWhile is_space (rev s) = rev s"
    using l by (metis dropWhile_eq_Cons_conv hd_Cons_tl list.sel(1) dropWhile.simps(2))
  show ?thesis by (simp add: trim_def 1 2)
qed


lemma string_setters_normal: "lowercase (string_setters s) \<and> trimmed (string_setters s)"
  by (simp add: string_setters_def lowercase_toLowerCase trimmed_toLowerCase trimmed_trim)

lemma string_setters_nonempty: "trimmed s \<Longrightarrow> s \<noteq> [] \<Longrightarrow> string_setters s \<noteq> []"
  by (simp add: string_setters_def trim_trimmed toLowerCase_def)

lemma parse_tags_text:
  "h = Absent \<or> h = Text s \<Longrightarrow> t \<in> set (parse_tags h) \<Longrightarrow> t \<noteq> [] \<and> trimmed t"
  by (auto simp: parse_tags_def trimmed_trim)

section \<open>Creating a post\<close>

lemma createPost_ok:
  assumes "dur = Some r" "0 < r" "r < 300" "length cap \<le> 280" "pid \<notin> p_id ` set (posts d)"
  shows "createPost e now pid d uid (Some fname) cap tags dur =
     (d\<lparr>posts := posts d @
        [\<lparr>p_id = pid, author = uid, videoUrl = upload_base e @ fname, caption = cap,
          hashtags = map string_setters (parse_tags tags), durationSec = r, likes = [],
          comments = [], views = 0, isPromoted = False, createdAt = now, updatedAt = now\<rparr>]\<rparr>,
      Inr \<lparr>p_id = pid, author = uid, videoUrl = upload_base e @ fname, caption = cap,
          hashtags = map string_setters (parse_tags tags), durationSec = r, likes = [],
          comments = [], views = 0, isPromoted = False, createdAt = now, updatedAt = now\<rparr>)"
  using assms by (simp add: createPost_def duration_ok_def Let_def)



section \<open>Stored hashtags\<close>

lemma demo_setters: "string_setters ''Foo'' = ''foo''" "string_setters [] = []" "string_setters '' ''  = []"
  by code_simp+

text \<open>
  Every stored hashtag is lower-case and trimmed, because the schema's setters
  run on each element. Only the string form of the field drops the empty
  pieces (\<open>filter(Boolean)\<close>); an array is stored element by element.
\<close>

lemma createPost_hashtags_normal:
  assumes "createPost e now pid d uid file cap tags dur = (d', Inr p)" and "t \<in> set (hashtags p)"
  shows "lowercase t \<and> trimmed t \<and> ((tags = Absent \<or> (\<exists>s. tags = Text s)) \<longrightarrow> t \<noteq> [])"
proof -
  from assms(1) have "hashtags p = map string_setters (parse_tags tags)"
    by (auto simp: createPost_def Let_def split: if_splits option.splits)
  with assms(2) obtain x where x: "x \<in> set (parse_tags tags)" "t = string_setters x" by auto
  have "t \<noteq> []" if "tags = Absent \<or> (\<exists>s. tags = Text s)"
  proof -
    from that obtain s where "tags = Absent \<or> tags = Text s" by blast
    from parse_tags_text[OF this x(1)] show ?thesis using x(2) by (simp add: string_setters_nonempty)
  qed
  then show ?thesis using x(2) string_setters_normal by blast
qed

text \<open>
  Claim C8 says that every hashtag stored by a successful \<open>createPost\<close> is
  lower-case, trimmed and non-empty, however the hashtags were given. The code at
  the array form \<open>['', 'Foo']\<close> of the field: the post is created and its stored
  hashtags are the empty string and \<open>foo\<close>.
\<close>

theorem createPost_empty_hashtag:
  "createPost demo_env 300 12 demo_db 1 (Some ''c.mp4'') ''hi'' (Items ['''', ''Foo'']) (Some 45) =
     (demo_db\<lparr>posts := posts demo_db @
        [\<lparr>p_id = 12, author = 1, videoUrl = ''http://h/uploads/c.mp4'', caption = ''hi'',
          hashtags = ['''', ''foo''], durationSec = 45, likes = [],
          comments = [], views = 0, isPromoted = False, createdAt = 300, updatedAt = 300\<rparr>]\<rparr>,
      Inr \<lparr>p_id = 12, author = 1, videoUrl = ''http://h/uploads/c.mp4'', caption = ''hi'',
          hashtags = ['''', ''foo''], durationSec = 45, likes = [],
          comments = [], views = 0, isPromoted = False, createdAt = 300, updatedAt = 300\<rparr>)"
proof -
  have "(12::nat) \<notin> p_id ` set (posts demo_db)" by (simp add: demo_db_def clip_def reel_def)
  then show ?thesis
    by (simp add: createPost_ok[where r=45] parse_tags_def demo_setters demo_env_def)
qed

section \<open>Registration\<close>








section \<open>The follow relation\<close>

lemma findUserById_SomeD:
  "findUserById us i = Some u \<Longrightarrow> u \<in> set us \<and> u_id u = i"
  unfolding findUserById_def by (induction us) (auto split: if_splits)


lemma findUserById_update_other:
  assumes "\<And>u. u_id (f u) = u_id u" and "j \<noteq> i"
  shows "findUserById (users (update_user i f d)) j = findUserById (users d) j"
proof -
  have "find (\<lambda>u. u_id u = j) (map (\<lambda>u. if u_id u = i then f u else u) us)
        = find (\<lambda>u. u_id u = j) us" for us
    using assms by (induction us) auto
  then show ?thesis by (simp add: findUserById_def update_user_def)
qed

lemma save_versioned_fresh_copy:
  assumes "findUserById (users d) i = Some doc"
  shows "save_versioned doc f d = Some (update_user i (\<lambda>u. (f u)\<lparr>u_v := u_v u + 1\<rparr>) d)"
  using assms findUserById_SomeD[OF assms] by (simp add: save_versioned_def)

text \<open>
  Unless the request asks a user to unfollow themselves, both saves go through
  and the store after the request is the store before it with the caller's
  \<open>following\<close> and the target's \<open>followers\<close> replaced.
\<close>

lemma toggleFollow_users:
  assumes "findUserById (users d) t = Some tf" and "findUserById (users d) s = Some me"
    and "\<not> (s = t \<and> t \<in> set (following me))"
    and "fg = (if t \<in> set (following me) then filter (\<lambda>x. x \<noteq> t) (following me)
               else following me @ [t])"
    and "fs = (if t \<in> set (following me) then filter (\<lambda>x. x \<noteq> s) (followers tf)
               else followers tf @ [s])"
  shows "users (fst (toggleFollow now d s t)) =
     map (\<lambda>u. u\<lparr>followers := (if u_id u = t then fs else followers u),
                following := (if u_id u = s then fg else following u),
                u_updatedAt := (if u_id u = s \<or> u_id u = t then now else u_updatedAt u),
                u_v := u_v u + (if u_id u = s then 1 else 0) + (if u_id u = t then 1 else 0)\<rparr>)
       (users d)"
proof -
  have i: "u_id tf = t" "u_id me = s"
    using assms(1,2) findUserById_SomeD by blast+
  show ?thesis
  proof (cases "t \<in> set (following me)")
    case False
    then show ?thesis
      using assms i by (simp add: toggleFollow_def Let_def update_user_def o_def cong: if_cong)
  next
    case True
    with assms(3) have ne: "t \<noteq> s" by auto
    define f1 where "f1 = (\<lambda>u::user. u\<lparr>following := fg, u_updatedAt := now\<rparr>)"
    define f2 where "f2 = (\<lambda>u::user. u\<lparr>followers := fs, u_updatedAt := now\<rparr>)"
    define d1 where "d1 = update_user s (\<lambda>u. (f1 u)\<lparr>u_v := u_v u + 1\<rparr>) d"
    have s1: "save_versioned me f1 d = Some d1"
      unfolding d1_def by (rule save_versioned_fresh_copy[OF assms(2)])
    have "findUserById (users d1) t = Some tf"
      unfolding d1_def using assms(1) ne by (simp add: findUserById_update_other f1_def)
    then have s2: "save_versioned tf f2 d1 = Some (update_user t (\<lambda>u. (f2 u)\<lparr>u_v := u_v u + 1\<rparr>) d1)"
      by (rule save_versioned_fresh_copy)
    have "fst (toggleFollow now d s t) = update_user t (\<lambda>u. (f2 u)\<lparr>u_v := u_v u + 1\<rparr>) d1"
      using assms(1,2,4,5) i True s1 s2 by (simp add: toggleFollow_def Let_def f1_def f2_def)
    then show ?thesis
      using ne by (simp add: d1_def f1_def f2_def update_user_def o_def cong: if_cong)
  qed
qed

lemma toggleFollow_users_error:
  assumes "findUserById (users d) t = None \<or> findUserById (users d) s = None"
  shows "fst (toggleFollow now d s t) = d"
  using assms by (auto simp: toggleFollow_def split: option.splits)

lemma toggleFollow_no_self:
  assumes inv: "no_self_follow d" and ne: "s \<noteq> t"
  shows "no_self_follow (fst (toggleFollow now d s t))"
proof (cases "findUserById (users d) t")
  case None
  then show ?thesis using inv by (simp add: toggleFollow_users_error)
next
  case tf: (Some tf)
  show ?thesis
  proof (cases "findUserById (users d) s")
    case None
    then show ?thesis using inv by (simp add: toggleFollow_users_error)
  next
    case me: (Some me)
    from findUserById_SomeD[OF tf] findUserById_SomeD[OF me] inv
    have a: "s \<notin> set (following me)" "t \<notin> set (followers tf)"
      by (auto simp: no_self_follow_def)
    have "\<not> (s = t \<and> t \<in> set (following me))" using ne by simp
    from toggleFollow_users[OF tf me this refl refl] show ?thesis
      unfolding no_self_follow_def using inv ne a by (auto simp: no_self_follow_def)
  qed
qed



text \<open>A run whose callers all differ from their targets is such a run.\<close>

lemma never_self_no_self_unfollow: "never_self cs \<Longrightarrow> no_self_unfollow d cs"
proof (induction cs arbitrary: d)
  case Nil
  then show ?case by simp
next
  case (Cons c cs)
  obtain now s t where c: "c = (now, s, t)" by (cases c) auto
  from Cons.prems c have "s \<noteq> t" "never_self cs" by (simp_all add: never_self_def)
  with Cons.IH c show ?case by simp
qed








text \<open>
  Claim C3 says that no call of \<open>toggleFollow\<close>, the call with
  \<open>selfId = targetId\<close> included, puts a user into their own followers or
  following array. The handler has no check for that case: on a store without
  edges, user 1 following user 1 ends up in both of their own arrays.
\<close>

theorem self_follow_counterexample:
  "no_self_follow demo_db \<and> \<not> no_self_follow (toggleFollow_seq demo_db [(300, 1, 1)]) \<and>
   map u_id (users (toggleFollow_seq demo_db [(300, 1, 1)])) = [1, 2] \<and>
   map followers (users (toggleFollow_seq demo_db [(300, 1, 1)])) = [[1], []] \<and>
   map following (users (toggleFollow_seq demo_db [(300, 1, 1)])) = [[1], []]"
  by (simp add: no_self_follow_def toggleFollow_def findUserById_def update_user_def demo_db_def
      alice_def bob_def Let_def)

text \<open>
  Claim C3, amended. From a store in which no user is in their own followers or
  following array, after any run of \<open>toggleFollow\<close> requests whose caller
  differs from the target, no user is in their own followers or following array.
\<close>

theorem no_self_follow_amended:
  assumes "no_self_follow d" and "never_self cs"
  shows "no_self_follow (toggleFollow_seq d cs)"
  using assms
proof (induction cs arbitrary: d)
  case Nil
  then show ?case by simp
next
  case (Cons c cs)
  obtain now s t where c: "c = (now, s, t)" by (cases c) auto
  from Cons.prems(2) c have "s \<noteq> t" "never_self cs" by (simp_all add: never_self_def)
  with Cons.IH[OF toggleFollow_no_self[OF Cons.prems(1) \<open>s \<noteq> t\<close>]] c show ?case by simp
qed

theorem no_self_follow_amended_witness:
  "no_self_follow demo_db \<and> never_self [(300, 1, 2), (310, 2, 1), (320, 1, 2)] \<and>
   no_self_follow (toggleFollow_seq demo_db [(300, 1, 2), (310, 2, 1), (320, 1, 2)])"
proof -
  have a: "no_self_follow demo_db"
    by (simp add: no_self_follow_def demo_db_def alice_def bob_def)
  have b: "never_self [(300, 1, 2), (310, 2, 1), (320, 1, 2)]"
    by (simp add: never_self_def)
  from no_self_follow_amended[OF a b] a b show ?thesis by blast
qed

section \<open>The feed\<close>

lemma newest_first_sorted:
  "sorted (map (\<lambda>p. - createdAt p) (newest_first ps)) \<and> set (newest_first ps) = set ps \<and>
   length (newest_first ps) = length ps"
  by (simp add: newest_first_def)

lemma newest_first_desc:
  assumes "i \<le> j" "j < length (newest_first ps)"
  shows "createdAt (newest_first ps ! j) \<le> createdAt (newest_first ps ! i)"
proof -
  have "sorted (map (\<lambda>p. - createdAt p) (newest_first ps))" by (simp add: newest_first_def)
  from sorted_nth_mono[OF this, of i j] assms show ?thesis by simp
qed

lemma newest_first_distinct:
  "distinct (map p_id ps) \<Longrightarrow> distinct (map p_id (newest_first ps))"
  by (simp add: distinct_map newest_first_def)

lemma listFeed_positive:
  assumes "1 \<le> feed_limit lq"
  shows "listFeed d pq lq h =
     (d, Inr (take (nat (feed_limit lq))
               (drop (nat (feed_page pq) * nat (feed_limit lq))
                  (newest_first (filter (feed_filter h) (posts d)))),
              feed_page pq, feed_limit lq))"
proof -
  have p: "0 \<le> feed_page pq" by (simp add: feed_page_def)
  then have "\<not> feed_page pq * feed_limit lq < 0" using assms by (simp add: mult_less_0_iff)
  moreover have "nat (feed_page pq * feed_limit lq) = nat (feed_page pq) * nat (feed_limit lq)"
    using p by (simp add: nat_mult_distrib)
  moreover have "nat \<bar>feed_limit lq\<bar> = nat (feed_limit lq)" using assms by simp
  ultimately show ?thesis using assms by (simp add: listFeed_def Let_def cursor_limit_def)
qed

lemma feed_limit_le: "feed_limit lq \<le> 50"
  by (simp add: feed_limit_def)

lemma adjacent_pages:
  "take n (drop (k * n) xs) @ take n (drop (Suc k * n) xs) = take (2 * n) (drop (k * n) xs)"
proof -
  have "drop (Suc k * n) xs = drop n (drop (k * n) xs)" by (simp add: add.commute)
  then show ?thesis by (simp add: take_add mult_2)
qed

lemma adjacent_pages_disjoint:
  assumes "distinct (map f xs)"
  shows "f ` set (take n (drop (k * n) xs)) \<inter> f ` set (take n (drop (Suc k * n) xs)) = {}"
proof -
  have "distinct (map f (take (2 * n) (drop (k * n) xs)))"
    using assms by (simp add: distinct_take distinct_drop flip: take_map drop_map)
  then have "distinct (map f (take n (drop (k * n) xs)) @ map f (take n (drop (Suc k * n) xs)))"
    by (simp flip: adjacent_pages map_append)
  then show ?thesis by auto
qed

lemma listFeed_no_limit:
  "listFeed d pq (Some 0) h = (d, Inr (newest_first (filter (feed_filter h) (posts d)), feed_page pq, 0))"
  by (simp add: listFeed_def feed_limit_def cursor_limit_def Let_def)

text \<open>
  Claim C7 says that for every page and limit the feed returns at most 50 posts,
  newest first, and that pages 0 and 1 with the same limit are disjoint,
  contiguous slices. With a limit of at least 1 this holds (\<open>listFeed_positive\<close>,
  \<open>feed_limit_le\<close>, \<open>newest_first_desc\<close>, \<open>adjacent_pages\<close>,
  \<open>adjacent_pages_disjoint\<close>). The code at \<open>limit=0\<close>: the limit is only
  capped from above, \<open>limit(0)\<close> sets no limit, and page 0 and page 1 both return
  the whole collection.
\<close>

theorem listFeed_limit_zero:
  "listFeed demo_db (Some 0) (Some 0) None = (demo_db, Inr ([reel, clip], 0, 0)) \<and>
   listFeed demo_db (Some 1) (Some 0) None = (demo_db, Inr ([reel, clip], 1, 0))"
  by (simp add: listFeed_def feed_page_def feed_limit_def feed_filter_def newest_first_def
      cursor_limit_def demo_db_def clip_def reel_def)

end
